theory Spec2Isabelle
  imports Main
begin

section \<open>Go strings as byte sequences\<close>

text \<open>
  A Go \<open>string\<close> is a sequence of bytes; it is modelled as a \<open>char list\<close>. The functions
  of package \<open>strings\<close> that the program calls are modelled with the behaviour of the Go
  standard library.
\<close>

abbreviation LF :: char where "LF \<equiv> CHR 0x0A"
abbreviation CR :: char where "CR \<equiv> CHR 0x0D"

definition HasPrefix :: "string \<Rightarrow> string \<Rightarrow> bool" where
  "HasPrefix s p = (length p \<le> length s \<and> take (length p) s = p)"

definition TrimPrefix :: "string \<Rightarrow> string \<Rightarrow> string" where
  "TrimPrefix s p = (if HasPrefix s p then drop (length p) s else s)"

text \<open>\<open>strings.Index\<close>: the byte offset of the first occurrence, \<open>-1\<close> when there is none.\<close>

fun Index :: "string \<Rightarrow> string \<Rightarrow> int" where
  "Index [] sub = (if sub = [] then 0 else - 1)"
| "Index (c # cs) sub =
     (if HasPrefix (c # cs) sub then 0
      else (let i = Index cs sub in if i < 0 then - 1 else i + 1))"

definition Contains :: "string \<Rightarrow> string \<Rightarrow> bool" where
  "Contains s sub = (0 \<le> Index s sub)"

lemma Index_bound: "0 \<le> Index s sub \<Longrightarrow> nat (Index s sub) + length sub \<le> length s"
proof (induction s)
  case Nil
  then show ?case by (simp split: if_splits)
next
  case (Cons c cs)
  show ?case
  proof (cases "HasPrefix (c # cs) sub")
    case True
    then show ?thesis by (simp add: HasPrefix_def)
  next
    case False
    with Cons.prems have nn: "0 \<le> Index cs sub"
      by (simp add: Let_def split: if_splits)
    with Cons.IH have "nat (Index cs sub) + length sub \<le> length cs" by simp
    with False nn show ?thesis by (simp add: Let_def nat_add_distrib)
  qed
qed

text \<open>
  \<open>strings.Split(s, sep)\<close> for a non-empty separator: the pieces between the
  non-overlapping occurrences of \<open>sep\<close>, found from the left by repeated \<open>Index\<close>
  (\<open>genSplit\<close>). The program only splits at non-empty separators; the empty separator
  (which in Go explodes the string into UTF-8 sequences) is not modelled and gives \<open>[s]\<close>.
\<close>

function Split :: "string \<Rightarrow> string \<Rightarrow> string list" where
  "Split s sep =
     (let m = Index s sep in
      if m < 0 \<or> sep = [] then [s]
      else take (nat m) s # Split (drop (nat m + length sep) s) sep)"
  by pat_completeness auto
termination
proof (relation "measure (\<lambda>(s, sep). length s)")
  show "wf (measure (\<lambda>(s, sep). length s))" by simp
next
  fix s sep :: string and m :: int
  assume m: "m = Index s sep" and c: "\<not> (m < 0 \<or> sep = [])"
  then have "nat m + length sep \<le> length s" using Index_bound[of s sep] by simp
  moreover from c obtain x xs where "sep = x # xs" by (cases sep) auto
  ultimately show "((drop (nat m + length sep) s, sep), (s, sep)) \<in> measure (\<lambda>(s, sep). length s)"
    by auto
qed

declare Split.simps [simp del]

text \<open>
  \<open>strings.ReplaceAll(s, old, new)\<close> for a non-empty \<open>old\<close>: every non-overlapping
  occurrence of \<open>old\<close>, found from the left, is replaced by \<open>new\<close>. The program only
  replaces a non-empty \<open>old\<close>; for the empty one the model returns \<open>s\<close>.
\<close>

function ReplaceAll :: "string \<Rightarrow> string \<Rightarrow> string \<Rightarrow> string" where
  "ReplaceAll s old new =
     (let m = Index s old in
      if m < 0 \<or> old = [] then s
      else take (nat m) s @ new @ ReplaceAll (drop (nat m + length old) s) old new)"
  by pat_completeness auto
termination
proof (relation "measure (\<lambda>(s, old, new). length s)")
  show "wf (measure (\<lambda>(s, old, new). length s))" by simp
next
  fix s old new :: string and m :: int
  assume m: "m = Index s old" and c: "\<not> (m < 0 \<or> old = [])"
  then have "nat m + length old \<le> length s" using Index_bound[of s old] by simp
  moreover from c obtain x xs where "old = x # xs" by (cases old) auto
  ultimately show
    "((drop (nat m + length old) s, old, new), (s, old, new)) \<in> measure (\<lambda>(s, old, new). length s)"
    by auto
qed

declare ReplaceAll.simps [simp del]

text \<open>
  \<open>strings.TrimSpace\<close> removes leading and trailing white space as \<open>unicode.IsSpace\<close>
  defines it on the UTF-8 decoding of the bytes: the six ASCII characters tab, line feed,
  vertical tab, form feed, carriage return and space, and the code points U+0085, U+00A0,
  U+1680, U+2000 to U+200A, U+2028, U+2029, U+202F, U+205F and U+3000, which are listed
  here by their UTF-8 encodings.
\<close>

definition asciiSpace :: "char \<Rightarrow> bool" where
  "asciiSpace c = (c \<in> set [CHR 0x09, CHR 0x0A, CHR 0x0B, CHR 0x0C, CHR 0x0D, CHR 0x20])"

definition spaceRunes :: "string list" where
  "spaceRunes =
     [[CHR 0xC2, CHR 0x85], [CHR 0xC2, CHR 0xA0], [CHR 0xE1, CHR 0x9A, CHR 0x80],
      [CHR 0xE2, CHR 0x80, CHR 0x80], [CHR 0xE2, CHR 0x80, CHR 0x81],
      [CHR 0xE2, CHR 0x80, CHR 0x82], [CHR 0xE2, CHR 0x80, CHR 0x83],
      [CHR 0xE2, CHR 0x80, CHR 0x84], [CHR 0xE2, CHR 0x80, CHR 0x85],
      [CHR 0xE2, CHR 0x80, CHR 0x86], [CHR 0xE2, CHR 0x80, CHR 0x87],
      [CHR 0xE2, CHR 0x80, CHR 0x88], [CHR 0xE2, CHR 0x80, CHR 0x89],
      [CHR 0xE2, CHR 0x80, CHR 0x8A], [CHR 0xE2, CHR 0x80, CHR 0xA8],
      [CHR 0xE2, CHR 0x80, CHR 0xA9], [CHR 0xE2, CHR 0x80, CHR 0xAF],
      [CHR 0xE2, CHR 0x81, CHR 0x9F], [CHR 0xE3, CHR 0x80, CHR 0x80]]"

text \<open>The byte width of the white-space rune at the front of the bytes, \<open>0\<close> if there is none.\<close>

definition spaceWidth :: "string list \<Rightarrow> string \<Rightarrow> nat" where
  "spaceWidth runes s =
     (case s of
        [] \<Rightarrow> 0
      | c # cs \<Rightarrow>
          if asciiSpace c then 1
          else (case find (HasPrefix s) runes of
                  None \<Rightarrow> 0
                | Some e \<Rightarrow> length e))"

lemma spaceWidth_le: "spaceWidth runes s \<le> length s"
  by (auto simp: spaceWidth_def HasPrefix_def find_Some_iff split: list.splits option.splits)

function trimFront :: "string list \<Rightarrow> string \<Rightarrow> string" where
  "trimFront runes s =
     (if spaceWidth runes s = 0 then s else trimFront runes (drop (spaceWidth runes s) s))"
  by pat_completeness auto
termination
proof (relation "measure (\<lambda>(runes, s). length s)")
  show "wf (measure (\<lambda>(runes, s). length s))" by simp
next
  fix runes :: "string list" and s :: string
  assume "spaceWidth runes s \<noteq> 0"
  moreover have "spaceWidth runes s \<le> length s" by (rule spaceWidth_le)
  ultimately show "((runes, drop (spaceWidth runes s) s), (runes, s)) \<in> measure (\<lambda>(runes, s). length s)"
    by simp
qed

declare trimFront.simps [simp del]

text \<open>
  Trimming the end decodes the last rune (\<open>utf8.DecodeLastRuneInString\<close>), which is a
  white-space rune exactly when the bytes end with its encoding: the same scan on the
  reversed bytes with the reversed encodings.
\<close>

definition TrimSpace :: "string \<Rightarrow> string" where
  "TrimSpace s = rev (trimFront (map rev spaceRunes) (rev (trimFront spaceRunes s)))"

section \<open>Package time: parsing and formatting date layouts\<close>

text \<open>
  \<open>time.Parse\<close> and \<open>Time.Format\<close> are modelled for layouts built from the reference
  elements \<open>2006\<close> (four-digit year), \<open>01\<close> (two-digit month) and \<open>02\<close> (two-digit day)
  and literal text, which covers the three layouts of the program. A parsed \<open>time.Time\<close>
  of such a layout is midnight UTC of a civil date, so the model keeps year, month and day.
\<close>

record Time =
  tYear :: int
  tMonth :: int
  tDay :: int

datatype ParseError = errBad | errRange | errExtraText | errDayOutOfRange

datatype std = stdNone | stdLongYear | stdZeroMonth | stdZeroDay

text \<open>
  \<open>nextStdChunk\<close>: the literal text before the first reference element, the element,
  and the rest of the layout.
\<close>

fun nextStdChunk :: "string \<Rightarrow> string \<times> std \<times> string" where
  "nextStdChunk [] = ([], stdNone, [])"
| "nextStdChunk (c # cs) =
     (if HasPrefix (c # cs) ''2006'' then ([], stdLongYear, drop 4 (c # cs))
      else if HasPrefix (c # cs) ''01'' then ([], stdZeroMonth, drop 2 (c # cs))
      else if HasPrefix (c # cs) ''02'' then ([], stdZeroDay, drop 2 (c # cs))
      else (case nextStdChunk cs of (prefix, st, suffix) \<Rightarrow> (c # prefix, st, suffix)))"

lemma nextStdChunk_shorter:
  "nextStdChunk layout = (prefix, st, suffix) \<Longrightarrow> st \<noteq> stdNone \<Longrightarrow> length suffix < length layout"
proof (induction layout arbitrary: prefix)
  case Nil
  then show ?case by simp
next
  case (Cons c cs)
  show ?case
  proof (cases "HasPrefix (c # cs) ''2006'' \<or> HasPrefix (c # cs) ''01'' \<or> HasPrefix (c # cs) ''02''")
    case True
    with Cons.prems show ?thesis by (auto split: if_splits)
  next
    case False
    with Cons.prems obtain p where "nextStdChunk cs = (p, st, suffix)"
      by (auto split: prod.splits)
    with Cons.IH Cons.prems(2) have "length suffix < length cs" by blast
    then show ?thesis by simp
  qed
qed

definition cutspace :: "string \<Rightarrow> string" where
  "cutspace s = dropWhile (\<lambda>c. c = CHR '' '') s"

text \<open>\<open>skip\<close> removes the literal \<open>prefix\<close> from the front of \<open>value\<close>; a space in the
  prefix stands for any run of spaces.\<close>

function skip :: "string \<Rightarrow> string \<Rightarrow> ParseError + string" where
  "skip value [] = Inr value"
| "skip value (p # ps) =
     (if p = CHR '' '' then
        (if value \<noteq> [] \<and> hd value \<noteq> CHR '' '' then Inl errBad
         else skip (cutspace value) (cutspace ps))
      else if value = [] \<or> hd value \<noteq> p then Inl errBad
      else skip (tl value) ps)"
  by pat_completeness auto
termination
  by (relation "measure (\<lambda>(value, prefix). length prefix)")
     (auto simp: cutspace_def le_imp_less_Suc length_dropWhile_le)

definition isDigit :: "string \<Rightarrow> nat \<Rightarrow> bool" where
  "isDigit s i = (i < length s \<and> (48::nat) \<le> of_char (s ! i) \<and> (of_char (s ! i) :: nat) \<le> 57)"

definition digitVal :: "char \<Rightarrow> int" where
  "digitVal c = of_char c - 48"

text \<open>\<open>getnum\<close> reads one or two digits; with \<open>fixed\<close> it insists on two.\<close>

definition getnum :: "string \<Rightarrow> bool \<Rightarrow> ParseError + (int \<times> string)" where
  "getnum s fixed =
     (if \<not> isDigit s 0 then Inl errBad
      else if \<not> isDigit s 1 then
        (if fixed then Inl errBad else Inr (digitVal (s ! 0), drop 1 s))
      else Inr (digitVal (s ! 0) * 10 + digitVal (s ! 1), drop 2 s))"

text \<open>
  \<open>leadingInt\<close> consumes the leading decimal digits; \<open>atoi\<close> accepts an optional sign and
  requires that nothing is left. The overflow check of \<open>leadingInt\<close> is left out: the
  parser calls \<open>atoi\<close> on four bytes.
\<close>

fun leadingInt :: "int \<Rightarrow> string \<Rightarrow> int \<times> string" where
  "leadingInt x [] = (x, [])"
| "leadingInt x (c # cs) =
     (if isDigit [c] 0 then leadingInt (x * 10 + digitVal c) cs else (x, c # cs))"

definition atoi :: "string \<Rightarrow> ParseError + int" where
  "atoi s =
     (let neg = (s \<noteq> [] \<and> hd s = CHR ''-'');
          s' = (if s \<noteq> [] \<and> (hd s = CHR ''-'' \<or> hd s = CHR ''+'') then tl s else s)
      in case leadingInt 0 s' of
           (q, rem) \<Rightarrow> if rem \<noteq> [] then Inl errBad else Inr (if neg then - q else q))"

definition isLeap :: "int \<Rightarrow> bool" where
  "isLeap year = (year mod 4 = 0 \<and> (year mod 100 \<noteq> 0 \<or> year mod 400 = 0))"

definition daysIn :: "int \<Rightarrow> int \<Rightarrow> int" where
  "daysIn m year =
     (if m = 2 then (if isLeap year then 29 else 28)
      else if m = 4 \<or> m = 6 \<or> m = 9 \<or> m = 11 then 30 else 31)"

text \<open>
  The loop of \<open>time.Parse\<close> over the chunks of the layout; the state is year, month and
  day as read so far. Every error return of the Go loop is an \<open>Inl\<close>.
\<close>

function parseLoop :: "string \<Rightarrow> string \<Rightarrow> int \<times> int \<times> int \<Rightarrow> ParseError + (int \<times> int \<times> int)" where
  "parseLoop layout value ymd =
     (case nextStdChunk layout of (prefix, st, suffix) \<Rightarrow>
        (case skip value prefix of
           Inl e \<Rightarrow> Inl e
         | Inr value \<Rightarrow>
            (case ymd of (year, month, day) \<Rightarrow>
              (case st of
                 stdNone \<Rightarrow> if value \<noteq> [] then Inl errExtraText else Inr ymd
               | stdLongYear \<Rightarrow>
                   if length value < 4 \<or> \<not> isDigit value 0 then Inl errBad
                   else (case atoi (take 4 value) of
                           Inl e \<Rightarrow> Inl e
                         | Inr y \<Rightarrow> parseLoop suffix (drop 4 value) (y, month, day))
               | stdZeroMonth \<Rightarrow>
                   (case getnum value True of
                      Inl e \<Rightarrow> Inl e
                    | Inr (m, value) \<Rightarrow>
                        if m \<le> 0 \<or> 12 < m then Inl errRange
                        else parseLoop suffix value (year, m, day))
               | stdZeroDay \<Rightarrow>
                   (case getnum value True of
                      Inl e \<Rightarrow> Inl e
                    | Inr (d, value) \<Rightarrow> parseLoop suffix value (year, month, d))))))"
  by pat_completeness auto
termination
  by (relation "measure (\<lambda>(layout, value, ymd). length layout)")
     (auto dest: nextStdChunk_shorter[OF sym])

declare parseLoop.simps [simp del]

text \<open>
  \<open>time.Parse\<close>: after the loop a missing month or day defaults to 1 and the day is
  checked against the length of the month.
\<close>

definition time_Parse :: "string \<Rightarrow> string \<Rightarrow> ParseError + Time" where
  "time_Parse layout value =
     (case parseLoop layout value (0, - 1, - 1) of
        Inl e \<Rightarrow> Inl e
      | Inr (year, month, day) \<Rightarrow>
          (let month = (if month < 0 then 1 else month);
               day = (if day < 0 then 1 else day)
           in if day < 1 \<or> daysIn month year < day then Inl errDayOutOfRange
              else Inr \<lparr>tYear = year, tMonth = month, tDay = day\<rparr>))"

text \<open>Decimal digits of a natural number, and \<open>appendInt\<close>: sign, zero padding to \<open>width\<close>, digits.\<close>

fun utoa :: "nat \<Rightarrow> string" where
  "utoa n = (if n < 10 then [char_of (48 + n)] else utoa (n div 10) @ [char_of (48 + n mod 10)])"

declare utoa.simps [simp del]

definition appendInt :: "int \<Rightarrow> nat \<Rightarrow> string" where
  "appendInt x width =
     (if x < 0 then ''-'' else []) @
     replicate (width - length (utoa (nat \<bar>x\<bar>))) (CHR ''0'') @ utoa (nat \<bar>x\<bar>)"

function Format :: "Time \<Rightarrow> string \<Rightarrow> string" where
  "Format t layout =
     (case nextStdChunk layout of (prefix, st, suffix) \<Rightarrow>
        prefix @
        (case st of
           stdNone \<Rightarrow> []
         | stdLongYear \<Rightarrow> appendInt (tYear t) 4 @ Format t suffix
         | stdZeroMonth \<Rightarrow> appendInt (tMonth t) 2 @ Format t suffix
         | stdZeroDay \<Rightarrow> appendInt (tDay t) 2 @ Format t suffix))"
  by pat_completeness auto
termination
  by (relation "measure (\<lambda>(t, layout). length layout)")
     (auto dest: nextStdChunk_shorter[OF sym])

declare Format.simps [simp del]

text \<open>The verb \<open>%d\<close> of \<open>fmt.Sprintf\<close> on an \<open>int\<close>.\<close>

definition fmt_d :: "int \<Rightarrow> string" where
  "fmt_d x = (if x < 0 then ''-'' else []) @ utoa (nat \<bar>x\<bar>)"

section \<open>The record extractor\<close>

text \<open>
  Modelled from the spec: the type \<open>date.Date\<close> of package \<open>goslu/date\<close>, whose source is
  not part of the repository; the spec describes it as "a calendar date (year, month, day)
  with no time-of-day or timezone component". A value of the record stands for a valid
  civil date. The text that \<open>Date.String\<close> produces is not described; the serializer below
  takes that function as a parameter.
\<close>

record Date =
  dYear :: int
  dMonth :: int
  dDay :: int

text \<open>Modelled from the spec: \<open>date.FromTime\<close>, the civil date of a time.\<close>

definition FromTime :: "Time \<Rightarrow> Date" where
  "FromTime t = \<lparr>dYear = tYear t, dMonth = tMonth t, dDay = tDay t\<rparr>"

text \<open>Modelled from the spec: \<open>Date.ToStdTime\<close>, the time at the start of a civil date.\<close>

definition ToStdTime :: "Date \<Rightarrow> Time" where
  "ToStdTime d = \<lparr>tYear = dYear d, tMonth = dMonth d, tDay = dDay d\<rparr>"

record Birthday =
  UID :: string
  Date :: Date
  FullName :: string

text \<open>
  The local variables of \<open>parseBirthdayVCard\<close>, and what \<open>fmt.Printf\<close> has written to
  standard output so far.
\<close>

record locals =
  name :: string
  fullName :: string
  uid :: string
  birthdayDate :: "Time option"
  stdout :: string

definition init :: locals where
  "init = \<lparr>name = [], fullName = [], uid = [], birthdayDate = None, stdout = []\<rparr>"

definition formats :: "string list" where
  "formats = [''20060102'', ''2006-01-02'', ''2006/01/02'']"

text \<open>The loop over the formats: the first one that parses sets the date and breaks.\<close>

fun tryFormats :: "string list \<Rightarrow> string \<Rightarrow> Time option \<Rightarrow> Time option" where
  "tryFormats [] bdayStr bd = bd"
| "tryFormats (format # rest) bdayStr bd =
     (case time_Parse format bdayStr of
        Inr date \<Rightarrow> Some date
      | Inl err \<Rightarrow> tryFormats rest bdayStr bd)"

text \<open>The value of a birthday line: the typed form \<open>BDAY;VALUE=date:\<close> or the bare form \<open>BDAY:\<close>.\<close>

definition bdayValue :: "string \<Rightarrow> string" where
  "bdayValue line =
     (if Contains line '';VALUE=date:'' then
        (let parts = Split line '';VALUE=date:'' in
         if length parts = 2 then parts ! 1 else [])
      else if HasPrefix line ''BDAY:'' then TrimPrefix line ''BDAY:''
      else [])"

text \<open>Truncation at the first \<open>T\<close>, the formats, and the diagnostic when no date is known.\<close>

definition parseBday :: "locals \<Rightarrow> string \<Rightarrow> locals" where
  "parseBday st bdayStr0 =
     (if bdayStr0 \<noteq> [] then
        (let idx = Index bdayStr0 ''T'';
             bdayStr = (if idx \<noteq> - 1 then take (nat idx) bdayStr0 else bdayStr0);
             st = st\<lparr>birthdayDate := tryFormats formats bdayStr (birthdayDate st)\<rparr>
         in if birthdayDate st = None
            then st\<lparr>stdout := stdout st @ ''failed to parse birthday date: '' @ bdayStr @ [LF]\<rparr>
            else st)
      else st)"

text \<open>The body of the loop over the lines of the record.\<close>

definition scanLine :: "locals \<Rightarrow> string \<Rightarrow> locals" where
  "scanLine st line0 =
     (let line = TrimSpace line0;
          st = (if HasPrefix line ''N:'' then st\<lparr>name := TrimPrefix line ''N:''\<rparr> else st);
          st = (if HasPrefix line ''FN:'' then st\<lparr>fullName := TrimPrefix line ''FN:''\<rparr> else st);
          st = (if HasPrefix line ''UID:'' then st\<lparr>uid := TrimPrefix line ''UID:''\<rparr> else st)
      in if HasPrefix line ''BDAY'' then parseBday st (bdayValue line) else st)"

definition scanVCard :: "string \<Rightarrow> locals" where
  "scanVCard vcard = foldl scanLine init (Split vcard [LF])"

text \<open>
  \<open>parseBirthdayVCard\<close> returns the birthday, or \<open>None\<close> for Go's \<open>nil\<close>, together with the
  text it printed.
\<close>

definition parseBirthdayVCard :: "string \<Rightarrow> Birthday option \<times> string" where
  "parseBirthdayVCard vcard =
     (let st = scanVCard vcard in
      (case birthdayDate st of
         Some t \<Rightarrow>
           if name st \<noteq> [] \<or> fullName st \<noteq> [] then
             (let displayName = (if fullName st = [] then name st else fullName st)
              in Some \<lparr>UID = uid st, Date = FromTime t, FullName = displayName\<rparr>)
           else None
       | None \<Rightarrow> None,
       stdout st))"

section \<open>The calendar serializer\<close>

text \<open>A \<open>strings.Builder\<close> is the text written so far.\<close>

definition WriteString :: "string \<Rightarrow> string \<Rightarrow> string" where
  "WriteString sb s = sb @ s"

text \<open>The body of the loop over the birthdays; \<open>dateString\<close> stands for \<open>Date.String\<close>.\<close>

definition writeEvent :: "(Date \<Rightarrow> string) \<Rightarrow> string \<Rightarrow> Birthday \<Rightarrow> string" where
  "writeEvent dateString sb birthday =
     (let sb = WriteString sb (''BEGIN:VEVENT'' @ [CR, LF]);
          sb = WriteString sb (''UID:'' @
                 (ReplaceAll (FullName birthday) '' '' [] @ ''-birthday-'' @
                  fmt_d (tYear (ToStdTime (Date birthday)))) @ [CR, LF]);
          sb = WriteString sb (''DTSTART;VALUE=DATE:'' @
                 Format (ToStdTime (Date birthday)) ''20060102'' @ [CR, LF]);
          sb = WriteString sb (''RRULE:FREQ=YEARLY'' @ [CR, LF]);
          sb = WriteString sb (''SUMMARY:'' @ FullName birthday @ [CHR 0x27] @ ''s Birthday'' @ [CR, LF]);
          sb = WriteString sb (''DESCRIPTION:'' @ FullName birthday @ '' born on '' @
                 dateString (Date birthday) @ [CR, LF]);
          sb = WriteString sb (''TRANSP:TRANSPARENT'' @ [CR, LF]);
          sb = WriteString sb (''END:VEVENT'' @ [CR, LF])
      in sb)"

definition generateBirthdayIcs :: "(Date \<Rightarrow> string) \<Rightarrow> Birthday list \<Rightarrow> Date \<Rightarrow> string" where
  "generateBirthdayIcs dateString birthdays today =
     (let sb = [];
          sb = WriteString sb (''BEGIN:VCALENDAR'' @ [CR, LF]);
          sb = WriteString sb (''VERSION:2.0'' @ [CR, LF]);
          sb = WriteString sb (''PRODID:-//CardDAV Birthdays//EN'' @ [CR, LF]);
          sb = WriteString sb (''CALSCALE:GREGORIAN'' @ [CR, LF]);
          sb = foldl (writeEvent dateString) sb birthdays;
          sb = WriteString sb (''END:VCALENDAR'' @ [CR, LF])
      in sb)"

section \<open>The vocabulary of the extractor's properties\<close>

text \<open>
  \<open>truncated\<close> is the cut at the first \<open>T\<close> as \<open>parseBday\<close> computes it. \<open>lineDate\<close> is the
  date a single line yields when no date is known yet, that is, whether and to what the
  line parses. \<open>isBdayLine\<close> is the test that opens the birthday branch of the loop body.
  \<open>lastField p ls\<close> is the value of the last line of \<open>ls\<close> that starts, after
  trimming, with the prefix \<open>p\<close>, and empty when there is none.
\<close>

definition truncated :: "string \<Rightarrow> string" where
  "truncated v = (let idx = Index v ''T'' in if idx \<noteq> - 1 then take (nat idx) v else v)"

definition lineDate :: "string \<Rightarrow> Time option" where
  "lineDate line = birthdayDate (scanLine init line)"

definition isBdayLine :: "string \<Rightarrow> bool" where
  "isBdayLine line = HasPrefix (TrimSpace line) ''BDAY''"

definition lastField :: "string \<Rightarrow> string list \<Rightarrow> string" where
  "lastField p ls =
     (case filter (\<lambda>l. HasPrefix l p) (map TrimSpace ls) of
        [] \<Rightarrow> []
      | f # fs \<Rightarrow> TrimPrefix (last (f # fs)) p)"

section \<open>The shape of the calendar document\<close>

text \<open>
  The vocabulary of the specification for the serialized document: lines terminated by
  carriage return and line feed, the four header lines, the footer line, and the event
  block of a fact, which wraps six fields in \<open>BEGIN:VEVENT\<close> and \<open>END:VEVENT\<close>.
\<close>

definition crlfLines :: "string list \<Rightarrow> string" where
  "crlfLines ls = concat (map (\<lambda>l. l @ [CR, LF]) ls)"

definition headerLines :: "string list" where
  "headerLines = [''BEGIN:VCALENDAR'', ''VERSION:2.0'', ''PRODID:-//CardDAV Birthdays//EN'',
                  ''CALSCALE:GREGORIAN'']"

definition footerLines :: "string list" where
  "footerLines = [''END:VCALENDAR'']"

text \<open>
  A rendering of dates for the examples below, which need some function in the place of
  \<open>Date.String\<close>: year, month and day with hyphens.
\<close>

definition isoDateString :: "Date \<Rightarrow> string" where
  "isoDateString d = Format (ToStdTime d) ''2006-01-02''"

definition eventFields :: "(Date \<Rightarrow> string) \<Rightarrow> Birthday \<Rightarrow> string list" where
  "eventFields dateString b =
     [''UID:'' @ ReplaceAll (FullName b) '' '' [] @ ''-birthday-'' @ fmt_d (dYear (Date b)),
      ''DTSTART;VALUE=DATE:'' @ Format (ToStdTime (Date b)) ''20060102'',
      ''RRULE:FREQ=YEARLY'',
      ''SUMMARY:'' @ FullName b @ [CHR 0x27] @ ''s Birthday'',
      ''DESCRIPTION:'' @ FullName b @ '' born on '' @ dateString (Date b),
      ''TRANSP:TRANSPARENT'']"

definition eventBlock :: "(Date \<Rightarrow> string) \<Rightarrow> Birthday \<Rightarrow> string" where
  "eventBlock dateString b =
     crlfLines ([''BEGIN:VEVENT''] @ eventFields dateString b @ [''END:VEVENT''])"

text \<open>
  Line endings: \<open>lfAfterCR prev doc\<close> says that every line feed of \<open>doc\<close> directly follows a
  carriage return, \<open>prev\<close> being the byte before \<open>doc\<close>. Every line of a document ends with
  carriage return and line feed when this holds from the start of the document and the
  document ends with a line feed.
\<close>

fun lfAfterCR :: "char \<Rightarrow> string \<Rightarrow> bool" where
  "lfAfterCR prev [] = True"
| "lfAfterCR prev (c # cs) = ((c = LF \<longrightarrow> prev = CR) \<and> lfAfterCR c cs)"

definition everyLineCRLF :: "string \<Rightarrow> bool" where
  "everyLineCRLF doc = (doc \<noteq> [] \<and> last doc = LF \<and> lfAfterCR LF doc)"

section \<open>Properties of the serializer\<close>

lemma writeEvent_append: "writeEvent dateString sb b = sb @ eventBlock dateString b"
  by (simp add: writeEvent_def WriteString_def eventBlock_def eventFields_def crlfLines_def
      ToStdTime_def Let_def)

lemma foldl_writeEvent:
  "foldl (writeEvent dateString) sb bs = sb @ concat (map (eventBlock dateString) bs)"
  by (induction bs arbitrary: sb) (simp_all add: writeEvent_append)

lemma generate_blocks:
  "generateBirthdayIcs dateString bs today =
     crlfLines headerLines @ concat (map (eventBlock dateString) bs) @ crlfLines footerLines"
  by (simp add: generateBirthdayIcs_def WriteString_def foldl_writeEvent crlfLines_def
      headerLines_def footerLines_def Let_def)

text \<open>
  C3: for every list of facts the document is the four header lines, then one event block
  of six fields per fact in the order of the list (nothing is sorted, dropped or merged),
  then the footer line; the facts \<open>[A, B, C]\<close> give the blocks of \<open>A\<close>, \<open>B\<close>, \<open>C\<close> in
  this order.
\<close>

theorem serializer_order_preserving:
  "generateBirthdayIcs dateString bs today =
     crlfLines headerLines @ concat (map (eventBlock dateString) bs) @ crlfLines footerLines
   \<and> length headerLines = 4 \<and> length footerLines = 1
   \<and> length (eventFields dateString b) = 6
   \<and> length (map (eventBlock dateString) bs) = length bs
   \<and> generateBirthdayIcs dateString [A, B, C] today =
       crlfLines headerLines @ eventBlock dateString A @ eventBlock dateString B @
       eventBlock dateString C @ crlfLines footerLines"
  by (simp add: generate_blocks headerLines_def footerLines_def eventFields_def)

lemma Format_compact:
  "Format t ''20060102'' = appendInt (tYear t) 4 @ appendInt (tMonth t) 2 @ appendInt (tDay t) 2"
  by (simp add: Format.simps[of t "''20060102''"] Format.simps[of t "''0102''"]
      Format.simps[of t "''02''"] Format.simps[of t "[]"] HasPrefix_def)

text \<open>
  C6: the serializer has no error path. For every list of facts it returns a document that
  starts with the header and ends with the footer, and for the empty list the document is
  exactly the header and footer lines, with no event block.
\<close>

theorem serializer_empty:
  "(\<exists>body. generateBirthdayIcs dateString bs today = crlfLines headerLines @ body @ crlfLines footerLines)
   \<and> generateBirthdayIcs dateString [] today =
       ''BEGIN:VCALENDAR'' @ [CR, LF] @ ''VERSION:2.0'' @ [CR, LF] @
       ''PRODID:-//CardDAV Birthdays//EN'' @ [CR, LF] @ ''CALSCALE:GREGORIAN'' @ [CR, LF] @
       ''END:VCALENDAR'' @ [CR, LF]"
  by (simp add: generate_blocks headerLines_def footerLines_def crlfLines_def)

lemma utoa_2003: "utoa 2003 = ''2003''" by code_simp
lemma ReplaceAll_Jane: "ReplaceAll ''Jane Doe'' '' '' [] = ''JaneDoe''" by code_simp
lemma appendInt_2003: "appendInt 2003 4 = ''2003''" by code_simp
lemma appendInt_6: "appendInt 6 2 = ''06''" by code_simp
lemma appendInt_15: "appendInt 15 2 = ''15''" by code_simp

text \<open>
  C7: for a fact named \<open>Jane Doe\<close> with date 2003-06-15 the identifier field of the event
  is \<open>JaneDoe-birthday-2003\<close> (the name without spaces, \<open>-birthday-\<close>, the year) and the
  start field is the date-only value \<open>20030615\<close>.
\<close>

theorem jane_doe_event:
  "generateBirthdayIcs dateString
     [\<lparr>UID = u, Date = \<lparr>dYear = 2003, dMonth = 6, dDay = 15\<rparr>, FullName = ''Jane Doe''\<rparr>] today =
   crlfLines headerLines @
   crlfLines [''BEGIN:VEVENT'',
              ''UID:JaneDoe-birthday-2003'',
              ''DTSTART;VALUE=DATE:20030615'',
              ''RRULE:FREQ=YEARLY'',
              ''SUMMARY:Jane Doe'' @ [CHR 0x27] @ ''s Birthday'',
              ''DESCRIPTION:Jane Doe born on '' @ dateString \<lparr>dYear = 2003, dMonth = 6, dDay = 15\<rparr>,
              ''TRANSP:TRANSPARENT'',
              ''END:VEVENT''] @
   crlfLines footerLines"
  by (simp add: generate_blocks eventBlock_def eventFields_def Format_compact ToStdTime_def
      fmt_d_def utoa_2003 ReplaceAll_Jane appendInt_2003 appendInt_6 appendInt_15)

text \<open>
  C8: the reference date does not influence the output: for every list of facts and any
  two reference dates the documents are equal.
\<close>

theorem reference_date_ignored:
  "generateBirthdayIcs dateString bs d1 = generateBirthdayIcs dateString bs d2"
  by (simp add: generateBirthdayIcs_def)

text \<open>
  C10: the document does not depend on the identifiers of the facts: two lists of equal
  length that agree position by position on display name and date give the same document,
  whatever their identifiers are.
\<close>

theorem identifier_not_in_output:
  "length bs1 = length bs2 \<and>
   (\<forall>i<length bs1. FullName (bs1 ! i) = FullName (bs2 ! i) \<and> Date (bs1 ! i) = Date (bs2 ! i))
   \<Longrightarrow> generateBirthdayIcs dateString bs1 today = generateBirthdayIcs dateString bs2 today"
proof -
  assume a: "length bs1 = length bs2 \<and>
   (\<forall>i<length bs1. FullName (bs1 ! i) = FullName (bs2 ! i) \<and> Date (bs1 ! i) = Date (bs2 ! i))"
  have "map (eventBlock dateString) bs1 = map (eventBlock dateString) bs2"
  proof (rule nth_equalityI)
    show "length (map (eventBlock dateString) bs1) = length (map (eventBlock dateString) bs2)"
      using a by simp
  next
    fix i assume "i < length (map (eventBlock dateString) bs1)"
    then have i: "i < length bs1" by simp
    with a have "FullName (bs1 ! i) = FullName (bs2 ! i)" "Date (bs1 ! i) = Date (bs2 ! i)"
      by auto
    then have "eventBlock dateString (bs1 ! i) = eventBlock dateString (bs2 ! i)"
      by (simp add: eventBlock_def eventFields_def)
    with i a show "map (eventBlock dateString) bs1 ! i = map (eventBlock dateString) bs2 ! i"
      by simp
  qed
  then show ?thesis by (simp add: generate_blocks)
qed

theorem identifier_not_in_output_witness:
  "generateBirthdayIcs isoDateString
     [\<lparr>UID = ''uid-1'', Date = \<lparr>dYear = 2003, dMonth = 6, dDay = 15\<rparr>, FullName = ''Jane Doe''\<rparr>]
     \<lparr>dYear = 2024, dMonth = 1, dDay = 1\<rparr>
   = generateBirthdayIcs isoDateString
     [\<lparr>UID = ''another'', Date = \<lparr>dYear = 2003, dMonth = 6, dDay = 15\<rparr>, FullName = ''Jane Doe''\<rparr>]
     \<lparr>dYear = 2024, dMonth = 1, dDay = 1\<rparr>"
  by (rule identifier_not_in_output) simp

subsection \<open>Line endings\<close>

lemma lfAfterCR_append:
  "lfAfterCR p (xs @ ys) = (lfAfterCR p xs \<and> lfAfterCR (last (p # xs)) ys)"
  by (induction xs arbitrary: p) auto

lemma lfAfterCR_line: "LF \<notin> set l \<Longrightarrow> lfAfterCR p (l @ [CR, LF])"
  by (induction l arbitrary: p) auto

lemma lfAfterCR_crlfLines: "\<forall>l\<in>set ls. LF \<notin> set l \<Longrightarrow> lfAfterCR p (crlfLines ls)"
proof (induction ls arbitrary: p)
  case Nil
  then show ?case by (simp add: crlfLines_def)
next
  case (Cons l ls)
  have eq: "crlfLines (l # ls) = (l @ [CR, LF]) @ crlfLines ls" by (simp add: crlfLines_def)
  have a: "lfAfterCR p (l @ [CR, LF])" using Cons.prems by (simp add: lfAfterCR_line)
  have b: "lfAfterCR q (crlfLines ls)" for q using Cons by simp
  show ?case by (subst eq, subst lfAfterCR_append) (simp add: a b)
qed

lemma lfAfterCR_concat: "\<forall>x\<in>set xs. \<forall>p. lfAfterCR p x \<Longrightarrow> lfAfterCR p (concat xs)"
  by (induction xs arbitrary: p) (simp_all add: lfAfterCR_append)

lemma char_of_digit_neq_LF: "n < 10 \<Longrightarrow> char_of (48 + n :: nat) \<noteq> LF"
proof
  assume n: "n < 10" and e: "char_of (48 + n) = LF"
  have "(of_char (char_of (48 + n)) :: nat) = of_char LF" using e by simp
  then have "(48 + n) mod 256 = 10" by simp
  with n show False by simp
qed

lemma LF_notin_utoa: "LF \<notin> set (utoa n)"
proof (induction n rule: utoa.induct)
  case (1 n)
  show ?case
  proof (cases "n < 10")
    case True
    then show ?thesis using char_of_digit_neq_LF[of n] by (simp add: utoa.simps[of n])
  next
    case False
    moreover have "n mod 10 < 10" by simp
    ultimately show ?thesis using 1 char_of_digit_neq_LF[of "n mod 10"]
      by (simp add: utoa.simps[of n])
  qed
qed

lemma LF_notin_appendInt: "LF \<notin> set (appendInt x w)"
  by (simp add: appendInt_def LF_notin_utoa)

lemma LF_notin_fmt_d: "LF \<notin> set (fmt_d x)"
  by (simp add: fmt_d_def LF_notin_utoa)

lemma set_ReplaceAll: "set (ReplaceAll s old new) \<subseteq> set s \<union> set new"
proof (induction s old new rule: ReplaceAll.induct)
  case (1 s old new)
  show ?case
  proof (cases "Index s old < 0 \<or> old = []")
    case True
    then show ?thesis by (simp add: ReplaceAll.simps[of s old new])
  next
    case False
    then have "set (ReplaceAll (drop (nat (Index s old) + length old) s) old new)
               \<subseteq> set (drop (nat (Index s old) + length old) s) \<union> set new"
      using 1 by simp
    moreover have "set (drop (nat (Index s old) + length old) s) \<subseteq> set s" by (rule set_drop_subset)
    moreover have "set (take (nat (Index s old)) s) \<subseteq> set s" by (rule set_take_subset)
    ultimately show ?thesis using False
      by (auto simp: ReplaceAll.simps[of s old new] Let_def)
  qed
qed

lemma LF_notin_eventFields:
  assumes "LF \<notin> set (FullName b)" and "LF \<notin> set (dateString (Date b))"
  shows "\<forall>l\<in>set (eventFields dateString b). LF \<notin> set l"
proof -
  have "LF \<notin> set (ReplaceAll (FullName b) '' '' [])"
    using set_ReplaceAll[of "FullName b" "'' ''" "[]"] assms(1) by auto
  with assms show ?thesis
    by (simp add: eventFields_def LF_notin_fmt_d Format_compact LF_notin_appendInt)
qed

lemma lfAfterCR_eventBlock:
  assumes "LF \<notin> set (FullName b)" and "LF \<notin> set (dateString (Date b))"
  shows "lfAfterCR p (eventBlock dateString b)"
  unfolding eventBlock_def
  by (rule lfAfterCR_crlfLines)
     (use LF_notin_eventFields[where b = b and dateString = dateString] assms in simp)

lemma generate_ends_with_LF:
  "generateBirthdayIcs dateString bs today \<noteq> []"
  "last (generateBirthdayIcs dateString bs today) = LF"
  by (simp_all add: generate_blocks footerLines_def crlfLines_def)

lemma lfAfterCR_generate:
  assumes "\<forall>b\<in>set bs. LF \<notin> set (FullName b) \<and> LF \<notin> set (dateString (Date b))"
  shows "lfAfterCR p (generateBirthdayIcs dateString bs today)"
proof -
  have h: "lfAfterCR q (crlfLines headerLines)" for q
    by (rule lfAfterCR_crlfLines) (simp add: headerLines_def)
  have f: "lfAfterCR q (crlfLines footerLines)" for q
    by (rule lfAfterCR_crlfLines) (simp add: footerLines_def)
  have e: "lfAfterCR q (concat (map (eventBlock dateString) bs))" for q
    by (rule lfAfterCR_concat) (use assms in \<open>auto intro: lfAfterCR_eventBlock\<close>)
  show ?thesis
    by (simp only: generate_blocks lfAfterCR_append h f e simp_thms)
qed

text \<open>
  C5 (amended): for every list of facts in which no display name and no rendered date
  contains a line feed, every line of the document ends with carriage return and line feed
  and no line ends with a bare line feed.
\<close>

theorem crlf_line_endings:
  assumes "\<forall>b\<in>set bs. LF \<notin> set (FullName b) \<and> LF \<notin> set (dateString (Date b))"
  shows "everyLineCRLF (generateBirthdayIcs dateString bs today)"
proof -
  let ?doc = "generateBirthdayIcs dateString bs today"
  have "?doc \<noteq> []" and "last ?doc = LF"
    by (rule generate_ends_with_LF)+
  moreover from assms have "lfAfterCR LF ?doc"
    by (rule lfAfterCR_generate)
  ultimately show ?thesis
    by (simp add: everyLineCRLF_def)
qed

theorem crlf_line_endings_witness:
  "everyLineCRLF (generateBirthdayIcs isoDateString
     [\<lparr>UID = ''u'', Date = \<lparr>dYear = 2003, dMonth = 6, dDay = 15\<rparr>, FullName = ''Jane Doe''\<rparr>]
     \<lparr>dYear = 2024, dMonth = 1, dDay = 1\<rparr>)"
  by (rule crlf_line_endings) code_simp

text \<open>
  C5 as stated, for every list of facts, fails: a display name is written without escaping,
  so a line feed inside it ends a line of the document without a carriage return.
\<close>

theorem bare_line_feed_counterexample:
  "\<not> everyLineCRLF (generateBirthdayIcs isoDateString
     [\<lparr>UID = ''u'', Date = \<lparr>dYear = 2003, dMonth = 6, dDay = 15\<rparr>, FullName = ''Jane'' @ [LF] @ ''Doe''\<rparr>]
     \<lparr>dYear = 2024, dMonth = 1, dDay = 1\<rparr>)"
  by code_simp

section \<open>Properties of the extractor\<close>

lemma Index_single:
  "Index s [c] = (if c \<in> set s then int (length (takeWhile (\<lambda>x. x \<noteq> c) s)) else - 1)"
  by (induction s) (auto simp: HasPrefix_def Let_def)

lemma truncated_takeWhile: "truncated v = takeWhile (\<lambda>x. x \<noteq> CHR ''T'') v"
proof (cases "CHR ''T'' \<in> set v")
  case True
  have "take (length (takeWhile (\<lambda>x. x \<noteq> CHR ''T'') v)) v = takeWhile (\<lambda>x. x \<noteq> CHR ''T'') v"
    by (rule takeWhile_eq_take[symmetric])
  with True show ?thesis
    by (simp add: truncated_def Index_single Let_def)
next
  case False
  then have tw: "takeWhile (\<lambda>x. x \<noteq> CHR ''T'') v = v" by auto
  have "truncated v = v" using False by (simp add: truncated_def Index_single Let_def)
  with tw show ?thesis by (simp only:)
qed

lemma tryFormats_formats:
  "tryFormats formats c bd =
     (case time_Parse ''20060102'' c of
        Inr t \<Rightarrow> Some t
      | Inl e \<Rightarrow>
         (case time_Parse ''2006-01-02'' c of
            Inr t \<Rightarrow> Some t
          | Inl e \<Rightarrow>
             (case time_Parse ''2006/01/02'' c of
                Inr t \<Rightarrow> Some t
              | Inl e \<Rightarrow> bd)))"
  by (simp add: formats_def split: sum.splits)

lemma tryFormats_state:
  "tryFormats fs c bd = (case tryFormats fs c None of Some d \<Rightarrow> Some d | None \<Rightarrow> bd)"
  by (induction fs) (auto split: sum.splits)

lemma tryFormats_Some: "bd \<noteq> None \<Longrightarrow> tryFormats fs c bd \<noteq> None"
  by (induction fs) (auto split: sum.splits)

lemma parseBday_birthdayDate:
  "birthdayDate (parseBday st v) =
     (if v = [] then birthdayDate st else tryFormats formats (truncated v) (birthdayDate st))"
  by (simp add: parseBday_def truncated_def Let_def)

lemma parseBday_stdout:
  "stdout (parseBday st v) =
     (if v \<noteq> [] \<and> tryFormats formats (truncated v) (birthdayDate st) = None
      then stdout st @ ''failed to parse birthday date: '' @ truncated v @ [LF]
      else stdout st)"
  by (simp add: parseBday_def truncated_def Let_def)

lemma parseBday_names:
  "name (parseBday st v) = name st" "fullName (parseBday st v) = fullName st"
  "uid (parseBday st v) = uid st"
  by (simp_all add: parseBday_def Let_def)

lemma scanLine_birthdayDate:
  "birthdayDate (scanLine st l) =
     (if HasPrefix (TrimSpace l) ''BDAY'' \<and> bdayValue (TrimSpace l) \<noteq> []
      then tryFormats formats (truncated (bdayValue (TrimSpace l))) (birthdayDate st)
      else birthdayDate st)"
  by (simp add: scanLine_def Let_def parseBday_birthdayDate)

lemma scanLine_stdout:
  "stdout (scanLine st l) =
     (if HasPrefix (TrimSpace l) ''BDAY'' \<and> bdayValue (TrimSpace l) \<noteq> [] \<and>
         tryFormats formats (truncated (bdayValue (TrimSpace l))) (birthdayDate st) = None
      then stdout st @ ''failed to parse birthday date: '' @ truncated (bdayValue (TrimSpace l)) @ [LF]
      else stdout st)"
  by (simp add: scanLine_def Let_def parseBday_stdout)

lemma scanLine_name:
  "name (scanLine st l) =
     (if HasPrefix (TrimSpace l) ''N:'' then TrimPrefix (TrimSpace l) ''N:'' else name st)"
  by (simp add: scanLine_def Let_def parseBday_names)

lemma scanLine_fullName:
  "fullName (scanLine st l) =
     (if HasPrefix (TrimSpace l) ''FN:'' then TrimPrefix (TrimSpace l) ''FN:'' else fullName st)"
  by (simp add: scanLine_def Let_def parseBday_names)

lemma scanLine_lineDate:
  "birthdayDate (scanLine st l) = (case lineDate l of Some d \<Rightarrow> Some d | None \<Rightarrow> birthdayDate st)"
proof (cases "HasPrefix (TrimSpace l) ''BDAY'' \<and> bdayValue (TrimSpace l) \<noteq> []")
  case True
  then have "lineDate l = tryFormats formats (truncated (bdayValue (TrimSpace l))) None"
    by (simp add: lineDate_def scanLine_birthdayDate init_def)
  with True show ?thesis
    using tryFormats_state[of formats "truncated (bdayValue (TrimSpace l))" "birthdayDate st"]
    by (simp add: scanLine_birthdayDate)
next
  case False
  then have "lineDate l = None" by (auto simp: lineDate_def scanLine_birthdayDate init_def)
  with False show ?thesis by (auto simp: scanLine_birthdayDate)
qed

lemma case_snoc_last:
  "(case xs @ [y] of [] \<Rightarrow> a | d # ds \<Rightarrow> f (last (d # ds))) = f y"
  by (cases xs) simp_all

lemma foldl_scanLine_birthdayDate:
  "birthdayDate (foldl scanLine st ls) =
     (case filter (\<lambda>d. d \<noteq> None) (map lineDate ls) of
        [] \<Rightarrow> birthdayDate st
      | d # ds \<Rightarrow> last (d # ds))"
proof (induction ls rule: rev_induct)
  case Nil
  then show ?case by simp
next
  case (snoc l ls)
  show ?case
  proof (cases "lineDate l")
    case None
    with snoc show ?thesis by (simp add: scanLine_lineDate)
  next
    case (Some d)
    then show ?thesis
      using case_snoc_last[where xs = "filter (\<lambda>d. d \<noteq> None) (map lineDate ls)" and y = "Some d"
          and a = "birthdayDate st" and f = "\<lambda>x. x"]
      by (simp add: scanLine_lineDate)
  qed
qed

lemma foldl_scanLine_name:
  "name (foldl scanLine st ls) =
     (case filter (\<lambda>l. HasPrefix l ''N:'') (map TrimSpace ls) of
        [] \<Rightarrow> name st
      | f # fs \<Rightarrow> TrimPrefix (last (f # fs)) ''N:'')"
proof (induction ls rule: rev_induct)
  case Nil
  then show ?case by simp
next
  case (snoc l ls)
  show ?case
  proof (cases "HasPrefix (TrimSpace l) ''N:''")
    case True
    then show ?thesis
      using case_snoc_last[where xs = "filter (\<lambda>l. HasPrefix l ''N:'') (map TrimSpace ls)"
          and y = "TrimSpace l" and a = "name st" and f = "\<lambda>x. TrimPrefix x ''N:''"]
      by (simp add: scanLine_name)
  next
    case False
    with snoc show ?thesis by (simp add: scanLine_name)
  qed
qed

lemma foldl_scanLine_fullName:
  "fullName (foldl scanLine st ls) =
     (case filter (\<lambda>l. HasPrefix l ''FN:'') (map TrimSpace ls) of
        [] \<Rightarrow> fullName st
      | f # fs \<Rightarrow> TrimPrefix (last (f # fs)) ''FN:'')"
proof (induction ls rule: rev_induct)
  case Nil
  then show ?case by simp
next
  case (snoc l ls)
  show ?case
  proof (cases "HasPrefix (TrimSpace l) ''FN:''")
    case True
    then show ?thesis
      using case_snoc_last[where xs = "filter (\<lambda>l. HasPrefix l ''FN:'') (map TrimSpace ls)"
          and y = "TrimSpace l" and a = "fullName st" and f = "\<lambda>x. TrimPrefix x ''FN:''"]
      by (simp add: scanLine_fullName)
  next
    case False
    with snoc show ?thesis by (simp add: scanLine_fullName)
  qed
qed

lemma scanVCard_name: "name (scanVCard v) = lastField ''N:'' (Split v [LF])"
  by (simp add: scanVCard_def foldl_scanLine_name lastField_def init_def split: list.splits)

lemma scanVCard_fullName: "fullName (scanVCard v) = lastField ''FN:'' (Split v [LF])"
  by (simp add: scanVCard_def foldl_scanLine_fullName lastField_def init_def split: list.splits)

lemma scanVCard_birthdayDate:
  "birthdayDate (scanVCard v) =
     (case filter (\<lambda>d. d \<noteq> None) (map lineDate (Split v [LF])) of
        [] \<Rightarrow> None
      | d # ds \<Rightarrow> last (d # ds))"
  by (simp add: scanVCard_def foldl_scanLine_birthdayDate init_def split: list.splits)

lemma scanVCard_date_iff:
  "birthdayDate (scanVCard v) \<noteq> None \<longleftrightarrow> (\<exists>l\<in>set (Split v [LF]). lineDate l \<noteq> None)"
proof -
  let ?ds = "filter (\<lambda>d. d \<noteq> None) (map lineDate (Split v [LF]))"
  show ?thesis
  proof (cases ?ds)
    case Nil
    then have "\<forall>l\<in>set (Split v [LF]). lineDate l = None"
      by (auto simp: filter_empty_conv)
    with Nil show ?thesis by (simp add: scanVCard_birthdayDate)
  next
    case (Cons d ds)
    then have "last (d # ds) \<in> set ?ds" by (metis last_in_set list.distinct(1))
    then have "last (d # ds) \<noteq> None" by auto
    moreover from Cons have "d \<in> set ?ds" by simp
    then have "\<exists>l\<in>set (Split v [LF]). lineDate l \<noteq> None" by auto
    ultimately show ?thesis using Cons by (simp add: scanVCard_birthdayDate)
  qed
qed

lemma parse_emits_iff:
  "fst (parseBirthdayVCard v) \<noteq> None \<longleftrightarrow>
     birthdayDate (scanVCard v) \<noteq> None \<and> (name (scanVCard v) \<noteq> [] \<or> fullName (scanVCard v) \<noteq> [])"
  by (auto simp: parseBirthdayVCard_def Let_def split: option.splits)

lemma lastField_absent:
  "\<forall>l\<in>set ls. \<not> HasPrefix (TrimSpace l) p \<Longrightarrow> lastField p ls = []"
proof -
  assume "\<forall>l\<in>set ls. \<not> HasPrefix (TrimSpace l) p"
  then have "filter (\<lambda>l. HasPrefix l p) (map TrimSpace ls) = []"
    by (auto simp: filter_empty_conv)
  then show ?thesis by (simp add: lastField_def)
qed

text \<open>
  C2: extraction emits a fact if and only if some line of the record parses to a date and
  at least one of the two name fields, as left by the last \<open>N:\<close> and the last \<open>FN:\<close> line,
  is not empty. A record with no \<open>N:\<close> and no \<open>FN:\<close> line yields nothing whatever its
  dates are, and a record none of whose lines parses to a date yields nothing whatever
  its names are.
\<close>

theorem fact_iff_date_and_name:
  "(fst (parseBirthdayVCard v) \<noteq> None \<longleftrightarrow>
      (\<exists>l\<in>set (Split v [LF]). lineDate l \<noteq> None) \<and>
      (lastField ''N:'' (Split v [LF]) \<noteq> [] \<or> lastField ''FN:'' (Split v [LF]) \<noteq> []))
   \<and> ((\<forall>l\<in>set (Split v [LF]). \<not> HasPrefix (TrimSpace l) ''N:'' \<and> \<not> HasPrefix (TrimSpace l) ''FN:'')
        \<longrightarrow> fst (parseBirthdayVCard v) = None)
   \<and> ((\<forall>l\<in>set (Split v [LF]). lineDate l = None) \<longrightarrow> fst (parseBirthdayVCard v) = None)"
proof -
  have main: "fst (parseBirthdayVCard v) \<noteq> None \<longleftrightarrow>
      (\<exists>l\<in>set (Split v [LF]). lineDate l \<noteq> None) \<and>
      (lastField ''N:'' (Split v [LF]) \<noteq> [] \<or> lastField ''FN:'' (Split v [LF]) \<noteq> [])"
    by (simp only: parse_emits_iff scanVCard_date_iff scanVCard_name scanVCard_fullName)
  have names: "fst (parseBirthdayVCard v) = None"
    if "\<forall>l\<in>set (Split v [LF]). \<not> HasPrefix (TrimSpace l) ''N:'' \<and> \<not> HasPrefix (TrimSpace l) ''FN:''"
  proof -
    from that have "lastField ''N:'' (Split v [LF]) = []" "lastField ''FN:'' (Split v [LF]) = []"
      by (simp_all add: lastField_absent)
    with main show ?thesis by blast
  qed
  have dates: "fst (parseBirthdayVCard v) = None" if "\<forall>l\<in>set (Split v [LF]). lineDate l = None"
    using main that by auto
  from main names dates show ?thesis by blast
qed


lemma nameless_record:
  "\<forall>l\<in>set (Split ''BDAY:20030615'' [LF]).
     \<not> HasPrefix (TrimSpace l) ''N:'' \<and> \<not> HasPrefix (TrimSpace l) ''FN:''"
  by code_simp

lemma undated_record:
  "\<forall>l\<in>set (Split (''FN:Jane Doe'' @ [LF] @ ''BDAY:not-a-date'') [LF]). lineDate l = None"
  by code_simp

lemma complete_record:
  "(\<exists>l\<in>set (Split (''N:Doe;Jane;;;'' @ [LF] @ ''BDAY:20030615'') [LF]). lineDate l \<noteq> None) \<and>
   (lastField ''N:'' (Split (''N:Doe;Jane;;;'' @ [LF] @ ''BDAY:20030615'') [LF]) \<noteq> [] \<or>
    lastField ''FN:'' (Split (''N:Doe;Jane;;;'' @ [LF] @ ''BDAY:20030615'') [LF]) \<noteq> [])"
  by code_simp

theorem fact_iff_date_and_name_witness:
  "fst (parseBirthdayVCard ''BDAY:20030615'') = None \<and>
   fst (parseBirthdayVCard (''FN:Jane Doe'' @ [LF] @ ''BDAY:not-a-date'')) = None \<and>
   fst (parseBirthdayVCard (''N:Doe;Jane;;;'' @ [LF] @ ''BDAY:20030615'')) \<noteq> None"
  using fact_iff_date_and_name[of "''BDAY:20030615''"]
    fact_iff_date_and_name[of "''FN:Jane Doe'' @ [LF] @ ''BDAY:not-a-date''"]
    fact_iff_date_and_name[of "''N:Doe;Jane;;;'' @ [LF] @ ''BDAY:20030615''"]
    nameless_record undated_record complete_record
  by blast

lemma lineDate_compact:
  "lineDate ''BDAY:20030615'' = Some \<lparr>tYear = 2003, tMonth = 6, tDay = 15\<rparr>"
  by code_simp

lemma lineDate_hyphen:
  "lineDate ''BDAY:2003-06-15'' = Some \<lparr>tYear = 2003, tMonth = 6, tDay = 15\<rparr>"
  by code_simp

lemma lineDate_slash:
  "lineDate ''BDAY;VALUE=date:2003/06/15'' = Some \<lparr>tYear = 2003, tMonth = 6, tDay = 15\<rparr>"
  by code_simp

lemma lineDate_time:
  "lineDate ''BDAY:20030615T000000Z'' = Some \<lparr>tYear = 2003, tMonth = 6, tDay = 15\<rparr>"
  by code_simp

lemma parse_jane_compact:
  "parseBirthdayVCard (''FN:Jane Doe'' @ [LF] @ ''BDAY:20030615'') =
     (Some \<lparr>UID = [], Date = \<lparr>dYear = 2003, dMonth = 6, dDay = 15\<rparr>, FullName = ''Jane Doe''\<rparr>, [])"
  by code_simp

lemma parse_jane_time:
  "parseBirthdayVCard (''FN:Jane Doe'' @ [LF] @ ''BDAY:20030615T000000Z'') =
     (Some \<lparr>UID = [], Date = \<lparr>dYear = 2003, dMonth = 6, dDay = 15\<rparr>, FullName = ''Jane Doe''\<rparr>, [])"
  by code_simp

text \<open>
  C1: for a birthday line with a value, the value is cut at the first \<open>T\<close> and the rest is
  tried against the compact, the hyphenated and the slashed layout in this order; the first
  layout that parses gives the date and no later layout is consulted, and when none parses
  the date stays as it was. \<open>BDAY:20030615\<close>, \<open>BDAY:2003-06-15\<close> and
  \<open>BDAY;VALUE=date:2003/06/15\<close> parse to 2003-06-15, and \<open>BDAY:20030615T000000Z\<close> parses
  as \<open>BDAY:20030615\<close> does.
\<close>

theorem bday_format_priority:
  "(HasPrefix (TrimSpace line) ''BDAY'' \<and> bdayValue (TrimSpace line) \<noteq> [] \<longrightarrow>
      birthdayDate (scanLine st line) =
        (let c = takeWhile (\<lambda>x. x \<noteq> CHR ''T'') (bdayValue (TrimSpace line)) in
         case time_Parse ''20060102'' c of
           Inr t \<Rightarrow> Some t
         | Inl e \<Rightarrow>
            (case time_Parse ''2006-01-02'' c of
               Inr t \<Rightarrow> Some t
             | Inl e \<Rightarrow>
                (case time_Parse ''2006/01/02'' c of
                   Inr t \<Rightarrow> Some t
                 | Inl e \<Rightarrow> birthdayDate st))))
   \<and> lineDate ''BDAY:20030615'' = Some \<lparr>tYear = 2003, tMonth = 6, tDay = 15\<rparr>
   \<and> lineDate ''BDAY:2003-06-15'' = Some \<lparr>tYear = 2003, tMonth = 6, tDay = 15\<rparr>
   \<and> lineDate ''BDAY;VALUE=date:2003/06/15'' = Some \<lparr>tYear = 2003, tMonth = 6, tDay = 15\<rparr>
   \<and> lineDate ''BDAY:20030615T000000Z'' = lineDate ''BDAY:20030615''
   \<and> parseBirthdayVCard (''FN:Jane Doe'' @ [LF] @ ''BDAY:20030615T000000Z'') =
       parseBirthdayVCard (''FN:Jane Doe'' @ [LF] @ ''BDAY:20030615'')
   \<and> fst (parseBirthdayVCard (''FN:Jane Doe'' @ [LF] @ ''BDAY:20030615'')) =
       Some \<lparr>UID = [], Date = \<lparr>dYear = 2003, dMonth = 6, dDay = 15\<rparr>, FullName = ''Jane Doe''\<rparr>"
proof -
  have general: "birthdayDate (scanLine st line) =
        (let c = takeWhile (\<lambda>x. x \<noteq> CHR ''T'') (bdayValue (TrimSpace line)) in
         case time_Parse ''20060102'' c of
           Inr t \<Rightarrow> Some t
         | Inl e \<Rightarrow>
            (case time_Parse ''2006-01-02'' c of
               Inr t \<Rightarrow> Some t
             | Inl e \<Rightarrow>
                (case time_Parse ''2006/01/02'' c of
                   Inr t \<Rightarrow> Some t
                 | Inl e \<Rightarrow> birthdayDate st)))"
    if "HasPrefix (TrimSpace line) ''BDAY'' \<and> bdayValue (TrimSpace line) \<noteq> []"
    using that
    by (simp only: scanLine_birthdayDate tryFormats_formats truncated_takeWhile Let_def if_True simp_thms)
  have same: "lineDate ''BDAY:20030615T000000Z'' = lineDate ''BDAY:20030615''"
    by (simp only: lineDate_time lineDate_compact)
  have same_fact: "parseBirthdayVCard (''FN:Jane Doe'' @ [LF] @ ''BDAY:20030615T000000Z'') =
       parseBirthdayVCard (''FN:Jane Doe'' @ [LF] @ ''BDAY:20030615'')"
    by (simp only: parse_jane_time parse_jane_compact)
  have fact: "fst (parseBirthdayVCard (''FN:Jane Doe'' @ [LF] @ ''BDAY:20030615'')) =
       Some \<lparr>UID = [], Date = \<lparr>dYear = 2003, dMonth = 6, dDay = 15\<rparr>, FullName = ''Jane Doe''\<rparr>"
    by (simp only: parse_jane_compact fst_conv)
  from general lineDate_compact lineDate_hyphen lineDate_slash same same_fact fact
  show ?thesis by blast
qed

lemma padded_typed_line:
  "HasPrefix (TrimSpace ''  BDAY;VALUE=date:2003-06-15T10:30:00Z '') ''BDAY'' \<and>
   bdayValue (TrimSpace ''  BDAY;VALUE=date:2003-06-15T10:30:00Z '') \<noteq> []"
  by code_simp

lemma padded_typed_line_date:
  "(let c = takeWhile (\<lambda>x. x \<noteq> CHR ''T'') (bdayValue (TrimSpace ''  BDAY;VALUE=date:2003-06-15T10:30:00Z '')) in
         case time_Parse ''20060102'' c of
           Inr t \<Rightarrow> Some t
         | Inl e \<Rightarrow>
            (case time_Parse ''2006-01-02'' c of
               Inr t \<Rightarrow> Some t
             | Inl e \<Rightarrow>
                (case time_Parse ''2006/01/02'' c of
                   Inr t \<Rightarrow> Some t
                 | Inl e \<Rightarrow> birthdayDate init)))
   = Some \<lparr>tYear = 2003, tMonth = 6, tDay = 15\<rparr>"
  by code_simp

theorem bday_format_priority_witness:
  "birthdayDate (scanLine init ''  BDAY;VALUE=date:2003-06-15T10:30:00Z '') =
     Some \<lparr>tYear = 2003, tMonth = 6, tDay = 15\<rparr>"
proof -
  have "birthdayDate (scanLine init ''  BDAY;VALUE=date:2003-06-15T10:30:00Z '') =
    (let c = takeWhile (\<lambda>x. x \<noteq> CHR ''T'') (bdayValue (TrimSpace ''  BDAY;VALUE=date:2003-06-15T10:30:00Z '')) in
         case time_Parse ''20060102'' c of
           Inr t \<Rightarrow> Some t
         | Inl e \<Rightarrow>
            (case time_Parse ''2006-01-02'' c of
               Inr t \<Rightarrow> Some t
             | Inl e \<Rightarrow>
                (case time_Parse ''2006/01/02'' c of
                   Inr t \<Rightarrow> Some t
                 | Inl e \<Rightarrow> birthdayDate init)))"
    using bday_format_priority[where line = "''  BDAY;VALUE=date:2003-06-15T10:30:00Z ''" and st = init]
      padded_typed_line
    by blast
  then show ?thesis by (simp only: padded_typed_line_date)
qed


lemma parse_date_of_fact:
  "map_option Date (fst (parseBirthdayVCard v)) =
     (if name (scanVCard v) = [] \<and> fullName (scanVCard v) = [] then None
      else map_option FromTime (birthdayDate (scanVCard v)))"
  by (simp add: parseBirthdayVCard_def Let_def split: option.splits)

text \<open>
  C4 (amended): among several birthday lines the last one whose value parses wins. The
  date of the fact is the date of the last line of the record that parses to a date; each
  line that parses overwrites the date, and a line that does not parse leaves it as it is.
\<close>

theorem last_parsed_birthday_wins:
  "map_option Date (fst (parseBirthdayVCard v)) =
     (if lastField ''N:'' (Split v [LF]) = [] \<and> lastField ''FN:'' (Split v [LF]) = [] then None
      else (case filter (\<lambda>d. d \<noteq> None) (map lineDate (Split v [LF])) of
              [] \<Rightarrow> None
            | d # ds \<Rightarrow> map_option FromTime (last (d # ds))))
   \<and> birthdayDate (scanLine st l) = (case lineDate l of Some d \<Rightarrow> Some d | None \<Rightarrow> birthdayDate st)"
proof -
  have "map_option Date (fst (parseBirthdayVCard v)) =
     (if lastField ''N:'' (Split v [LF]) = [] \<and> lastField ''FN:'' (Split v [LF]) = [] then None
      else (case filter (\<lambda>d. d \<noteq> None) (map lineDate (Split v [LF])) of
              [] \<Rightarrow> None
            | d # ds \<Rightarrow> map_option FromTime (last (d # ds))))"
    by (simp add: parse_date_of_fact scanVCard_name scanVCard_fullName scanVCard_birthdayDate
        split: list.splits)
  then show ?thesis using scanLine_lineDate[of st l] by simp
qed

lemma two_birthdays_value:
  "(if lastField ''N:'' (Split (''FN:Jane Doe'' @ [LF] @ ''BDAY:2003-06-15'' @ [LF] @ ''BDAY:20040101'') [LF]) = [] \<and>
       lastField ''FN:'' (Split (''FN:Jane Doe'' @ [LF] @ ''BDAY:2003-06-15'' @ [LF] @ ''BDAY:20040101'') [LF]) = []
    then None
    else (case filter (\<lambda>d. d \<noteq> None)
                 (map lineDate (Split (''FN:Jane Doe'' @ [LF] @ ''BDAY:2003-06-15'' @ [LF] @ ''BDAY:20040101'') [LF])) of
            [] \<Rightarrow> None
          | d # ds \<Rightarrow> map_option FromTime (last (d # ds))))
   = Some \<lparr>dYear = 2004, dMonth = 1, dDay = 1\<rparr>"
  by code_simp

theorem last_parsed_birthday_wins_witness:
  "map_option Date (fst (parseBirthdayVCard
      (''FN:Jane Doe'' @ [LF] @ ''BDAY:2003-06-15'' @ [LF] @ ''BDAY:20040101''))) =
   Some \<lparr>dYear = 2004, dMonth = 1, dDay = 1\<rparr>"
  using last_parsed_birthday_wins[where v = "''FN:Jane Doe'' @ [LF] @ ''BDAY:2003-06-15'' @ [LF] @ ''BDAY:20040101''"]
    two_birthdays_value
  by (simp only:)

text \<open>
  C4 as stated fails: in the record below the last birthday line is
  \<open>BDAY:not-a-date\<close>, which on its own gives no date and no fact, yet the fact carries the
  date of the earlier birthday line.
\<close>

theorem last_birthday_line_counterexample:
  "last (filter isBdayLine
          (Split (''FN:Jane Doe'' @ [LF] @ ''BDAY:20030615'' @ [LF] @ ''BDAY:not-a-date'') [LF]))
     = ''BDAY:not-a-date''
   \<and> lineDate ''BDAY:not-a-date'' = None
   \<and> map_option Date (fst (parseBirthdayVCard (''FN:Jane Doe'' @ [LF] @ ''BDAY:not-a-date''))) = None
   \<and> map_option Date (fst (parseBirthdayVCard
        (''FN:Jane Doe'' @ [LF] @ ''BDAY:20030615'' @ [LF] @ ''BDAY:not-a-date'')))
     = Some \<lparr>dYear = 2003, dMonth = 6, dDay = 15\<rparr>
   \<and> map_option Date (fst (parseBirthdayVCard
        (''FN:Jane Doe'' @ [LF] @ ''BDAY:20030615'' @ [LF] @ ''BDAY:not-a-date'')))
     \<noteq> map_option FromTime (lineDate (last (filter isBdayLine
          (Split (''FN:Jane Doe'' @ [LF] @ ''BDAY:20030615'' @ [LF] @ ''BDAY:not-a-date'') [LF]))))"
  by code_simp

lemma scanLine_keeps_date:
  assumes "birthdayDate st \<noteq> None"
  shows "birthdayDate (scanLine st l) \<noteq> None" and "stdout (scanLine st l) = stdout st"
proof -
  have t: "tryFormats formats c (birthdayDate st) \<noteq> None" for c
    using assms by (rule tryFormats_Some)
  from t show "birthdayDate (scanLine st l) \<noteq> None"
    using assms by (auto simp: scanLine_birthdayDate)
  from t show "stdout (scanLine st l) = stdout st"
    by (auto simp: scanLine_stdout)
qed

lemma foldl_scanLine_keeps_date:
  "birthdayDate st \<noteq> None \<Longrightarrow>
     birthdayDate (foldl scanLine st ls) \<noteq> None \<and> stdout (foldl scanLine st ls) = stdout st"
proof (induction ls rule: rev_induct)
  case Nil
  then show ?case by simp
next
  case (snoc l ls)
  then have d: "birthdayDate (foldl scanLine st ls) \<noteq> None"
    and s: "stdout (foldl scanLine st ls) = stdout st" by simp_all
  from d have "birthdayDate (scanLine (foldl scanLine st ls) l) \<noteq> None"
    by (rule scanLine_keeps_date)
  moreover from d have "stdout (scanLine (foldl scanLine st ls) l) = stdout (foldl scanLine st ls)"
    by (rule scanLine_keeps_date)
  ultimately show ?case using s by simp
qed

text \<open>
  C9: the parsed date only goes from absent to present. Once a date is known, a further
  line, and so any further lines, leave a date in place and print nothing; a line that
  does not parse, or has an empty value, leaves the very same date.
\<close>

theorem parsed_date_monotone:
  assumes "birthdayDate st \<noteq> None"
  shows "birthdayDate (scanLine st l) \<noteq> None
     \<and> stdout (scanLine st l) = stdout st
     \<and> (lineDate l = None \<longrightarrow> birthdayDate (scanLine st l) = birthdayDate st)
     \<and> birthdayDate (foldl scanLine st ls) \<noteq> None
     \<and> stdout (foldl scanLine st ls) = stdout st"
proof -
  from assms have a: "birthdayDate (scanLine st l) \<noteq> None"
    by (rule scanLine_keeps_date)
  from assms have b: "stdout (scanLine st l) = stdout st"
    by (rule scanLine_keeps_date)
  have c: "birthdayDate (scanLine st l) = birthdayDate st" if "lineDate l = None"
    using that by (simp add: scanLine_lineDate)
  from a b c foldl_scanLine_keeps_date[OF assms, of ls] show ?thesis by blast
qed

lemma parsed_state: "birthdayDate (scanLine init ''BDAY:20030615'') \<noteq> None"
  by code_simp

lemma unparseable_line: "lineDate ''BDAY:not-a-date'' = None"
  by code_simp

lemma diagnostic_without_date:
  "stdout (scanLine init ''BDAY:not-a-date'') = ''failed to parse birthday date: not-a-date'' @ [LF]"
  by code_simp

theorem parsed_date_monotone_witness:
  "birthdayDate (scanLine (scanLine init ''BDAY:20030615'') ''BDAY:not-a-date'') =
     birthdayDate (scanLine init ''BDAY:20030615'')
   \<and> stdout (scanLine (scanLine init ''BDAY:20030615'') ''BDAY:not-a-date'') =
     stdout (scanLine init ''BDAY:20030615'')
   \<and> stdout (scanLine (scanLine init ''BDAY:20030615'') ''BDAY:'') =
     stdout (scanLine init ''BDAY:20030615'')
   \<and> stdout (scanLine init ''BDAY:not-a-date'') = ''failed to parse birthday date: not-a-date'' @ [LF]"
  using parsed_date_monotone[OF parsed_state, of "''BDAY:not-a-date''"]
    parsed_date_monotone[OF parsed_state, of "''BDAY:''"]
    unparseable_line diagnostic_without_date
  by blast

section \<open>Facts of the extractor in the serializer\<close>

text \<open>
  The extractor splits the record at line feeds, so the display name of a fact it returns
  contains none: documents made from extracted facts have every line ended by carriage
  return and line feed, provided the rendering of dates writes no line feed.
\<close>

lemma Split_single_pieces:
  "sep = [c] \<Longrightarrow> p \<in> set (Split s sep) \<Longrightarrow> c \<notin> set p"
proof (induction s sep arbitrary: p rule: Split.induct)
  case (1 s sep)
  note sep = \<open>sep = [c]\<close> and p = \<open>p \<in> set (Split s sep)\<close>
  show ?case
  proof (cases "Index s sep < 0")
    case True
    then have "Split s sep = [s]" by (subst Split.simps) (simp add: Let_def)
    with p have "p = s" by simp
    moreover from True sep have "c \<notin> set s" by (simp add: Index_single split: if_splits)
    ultimately show ?thesis by simp
  next
    case False
    with sep have c: "c \<in> set s" by (simp add: Index_single split: if_splits)
    with sep have m: "nat (Index s sep) = length (takeWhile (\<lambda>x. x \<noteq> c) s)"
      by (simp add: Index_single)
    have tk: "take (length (takeWhile (\<lambda>x. x \<noteq> c) s)) s = takeWhile (\<lambda>x. x \<noteq> c) s"
      by (rule takeWhile_eq_take[symmetric])
    from False sep have "Split s sep =
        take (nat (Index s sep)) s # Split (drop (nat (Index s sep) + length sep) s) sep"
      by (subst Split.simps) (simp add: Let_def)
    with p have "p = take (nat (Index s sep)) s \<or>
        p \<in> set (Split (drop (nat (Index s sep) + length sep) s) sep)"
      by simp
    then show ?thesis
    proof
      assume "p = take (nat (Index s sep)) s"
      with m tk have "p = takeWhile (\<lambda>x. x \<noteq> c) s" by simp
      then show ?thesis by (auto dest: set_takeWhileD)
    next
      assume q: "p \<in> set (Split (drop (nat (Index s sep) + length sep) s) sep)"
      from False sep have "\<not> (Index s sep < 0 \<or> sep = [])" by simp
      from "1.IH"[OF refl this sep q] show ?thesis .
    qed
  qed
qed

lemma set_trimFront: "set (trimFront runes s) \<subseteq> set s"
proof (induction runes s rule: trimFront.induct)
  case (1 runes s)
  show ?case
  proof (cases "spaceWidth runes s = 0")
    case True
    then show ?thesis by (simp add: trimFront.simps[of runes s])
  next
    case False
    with 1 have "set (trimFront runes (drop (spaceWidth runes s) s)) \<subseteq> set (drop (spaceWidth runes s) s)"
      by simp
    moreover have "set (drop (spaceWidth runes s) s) \<subseteq> set s" by (rule set_drop_subset)
    ultimately show ?thesis using False by (auto simp: trimFront.simps[of runes s])
  qed
qed

lemma set_TrimSpace: "set (TrimSpace s) \<subseteq> set s"
proof -
  let ?t = "trimFront spaceRunes s"
  have "set (trimFront (map rev spaceRunes) (rev ?t)) \<subseteq> set (rev ?t)" by (rule set_trimFront)
  moreover have "set ?t \<subseteq> set s" by (rule set_trimFront)
  ultimately show ?thesis by (auto simp: TrimSpace_def)
qed

lemma set_TrimPrefix: "set (TrimPrefix s p) \<subseteq> set s"
  by (auto simp: TrimPrefix_def dest: in_set_dropD)

lemma LF_notin_field: "LF \<notin> set l \<Longrightarrow> LF \<notin> set (TrimPrefix (TrimSpace l) p)"
  using set_TrimPrefix[of "TrimSpace l" p] set_TrimSpace[of l] by auto

lemma foldl_scanLine_no_LF:
  assumes "\<forall>l\<in>set ls. LF \<notin> set l" and "LF \<notin> set (name st)" and "LF \<notin> set (fullName st)"
  shows "LF \<notin> set (name (foldl scanLine st ls)) \<and> LF \<notin> set (fullName (foldl scanLine st ls))"
  using assms
proof (induction ls rule: rev_induct)
  case Nil
  then show ?case by simp
next
  case (snoc l ls)
  then have "LF \<notin> set l" by simp
  then have "LF \<notin> set (TrimPrefix (TrimSpace l) ''N:'')" "LF \<notin> set (TrimPrefix (TrimSpace l) ''FN:'')"
    by (rule LF_notin_field)+
  with snoc show ?case by (simp add: scanLine_name scanLine_fullName)
qed

lemma extracted_name_no_LF:
  assumes "fst (parseBirthdayVCard v) = Some b"
  shows "LF \<notin> set (FullName b)"
proof -
  have "\<forall>l\<in>set (Split v [LF]). LF \<notin> set l" using Split_single_pieces[of "[LF]" LF _ v] by blast
  then have "LF \<notin> set (name (scanVCard v)) \<and> LF \<notin> set (fullName (scanVCard v))"
    unfolding scanVCard_def by (rule foldl_scanLine_no_LF) (simp_all add: init_def)
  with assms show ?thesis
    by (auto simp: parseBirthdayVCard_def Let_def split: option.splits if_splits)
qed

lemma extracted_facts_crlf:
  assumes "\<forall>b\<in>set bs. \<exists>v. fst (parseBirthdayVCard v) = Some b"
    and "\<forall>d. LF \<notin> set (dateString d)"
  shows "everyLineCRLF (generateBirthdayIcs dateString bs today)"
proof -
  have "\<forall>b\<in>set bs. LF \<notin> set (FullName b) \<and> LF \<notin> set (dateString (Date b))"
    using assms by (auto dest: extracted_name_no_LF)
  then have "lfAfterCR LF (generateBirthdayIcs dateString bs today)"
    by (rule lfAfterCR_generate)
  then show ?thesis
    by (simp add: everyLineCRLF_def generate_ends_with_LF)
qed

end
